theory Spec2Isabelle
  imports Complex_Main
begin

section \<open>Speech-end detection of \<^verbatim>\<open>build/analyze_stimuli.py\<close>\<close>

text \<open>
  The script decodes each stimulus to mono PCM, computes a rolling mean-square energy in
  dB (\<^verbatim>\<open>rolling_energy_db\<close>), and searches the energy profile backwards for the last run
  of at least \<^verbatim>\<open>min_frames\<close> frames above a threshold (\<^verbatim>\<open>detect_speech_end\<close>). \<^verbatim>\<open>main\<close>
  folds the results of all files into a \<^verbatim>\<open>durations\<close> dictionary and an \<^verbatim>\<open>errors\<close> list.

  Conventions of the embedding.
  \<^item> Samples, energies, thresholds and the times of the detector are \<^typ>\<open>real\<close>: the
    arithmetic of the source is IEEE floating point, the model computes the exact
    values there; NaN and infinite samples are outside the model.
  \<^item> The value that \<^verbatim>\<open>main\<close> stores is \<^verbatim>\<open>round(end_ms, 1)\<close>, and a rounding to one decimal
    place is not continuous: a float just below a tie rounds down where the exact value
    rounds up. So the full duration \<^verbatim>\<open>len(samples) / sr * 1000.0\<close> and \<^verbatim>\<open>round(x, 1)\<close> are
    modelled in binary64 (\<open>fl64\<close> below), each operation rounded to the nearest double.
    A timestamp of the detector reaches \<^verbatim>\<open>round\<close> as the exact value of its formula.
  \<^item> A sample rate is what \<^verbatim>\<open>ffprobe\<close> reports for an audio stream, a number of samples
    per second: a \<^typ>\<open>nat\<close>. The rate 0 is kept; Python's \<^verbatim>\<open>/\<close> on two ints raises
    \<^verbatim>\<open>ZeroDivisionError\<close> there.
  \<^item> Lengths and \<^verbatim>\<open>frame_length\<close> are \<^typ>\<open>nat\<close>; the loop indices of the detector, which
    reach \<open>-1\<close>, and \<^verbatim>\<open>min_frames\<close>, which Python does not restrict, are \<^typ>\<open>int\<close>.
  \<^item> An exception is a value: a function that can raise returns \<open>py_error + 'a\<close>.
\<close>

subsection \<open>Exceptions\<close>

datatype py_error =
    RuntimeError string
  | ValueError string
  | ZeroDivisionError string
  | OSError string

text \<open>\<^verbatim>\<open>str(e)\<close>, as the f-string \<^verbatim>\<open>f'{key}: {e}'\<close> formats an exception.\<close>

fun str_of :: "py_error \<Rightarrow> string" where
  "str_of (RuntimeError m) = m"
| "str_of (ValueError m) = m"
| "str_of (ZeroDivisionError m) = m"
| "str_of (OSError m) = m"

subsection \<open>VAD parameters\<close>

definition THRESHOLD_DB :: real where
  "THRESHOLD_DB = - 40"

definition FRAME_MS :: real where
  "FRAME_MS = 10"

definition MIN_FRAMES :: int where
  "MIN_FRAMES = 4"

subsection \<open>\<^verbatim>\<open>rolling_energy_db\<close>\<close>

text \<open>
  Python's \<^verbatim>\<open>round(x)\<close> on a float rounds to the nearest integer, a tie going to the
  even neighbour.
\<close>

definition py_round :: "real \<Rightarrow> int" where
  "py_round x =
     (let f = \<lfloor>x\<rfloor>; d = x - of_int f
      in if d < 1 / 2 then f
         else if 1 / 2 < d then f + 1
         else if even f then f else f + 1)"

text \<open>\<^verbatim>\<open>frame_length = max(1, int(round(sample_rate * frame_ms / 1000.0)))\<close>\<close>

definition frame_length_of :: "nat \<Rightarrow> real \<Rightarrow> nat" where
  "frame_length_of sample_rate frame_ms =
     nat (max 1 (py_round (real sample_rate * frame_ms / 1000)))"

text \<open>
  \<^verbatim>\<open>numpy.convolve(a, v, mode='valid')\<close>, as numpy defines it:
  \<^verbatim>\<open>
      if len(v) > len(a):
          a, v = v, a
      if len(a) == 0:
          raise ValueError('a cannot be empty')
      if len(v) == 0:
          raise ValueError('v cannot be empty')
      return multiarray.correlate(a, v[::-1], mode)
  \<close>
  The arguments are swapped when the second is the longer one, so the result has
  \<open>max M N - min M N + 1\<close> entries; entry \<open>k\<close> is the sum of \<open>a[k + j] * v[len(v) - 1 - j]\<close>
  over the positions \<open>j\<close> of the shorter array.
\<close>

definition correlate_valid :: "real list \<Rightarrow> real list \<Rightarrow> real list" where
  "correlate_valid a w =
     map (\<lambda>k. sum_list (map (\<lambda>j. a ! (k + j) * w ! j) [0..<length w]))
       [0..<length a - length w + 1]"

definition np_convolve_valid :: "real list \<Rightarrow> real list \<Rightarrow> py_error + real list" where
  "np_convolve_valid a0 v0 =
     (let a = (if length a0 < length v0 then v0 else a0);
          v = (if length a0 < length v0 then a0 else v0)
      in if length a = 0 then Inl (ValueError ''a cannot be empty'')
         else if length v = 0 then Inl (ValueError ''v cannot be empty'')
         else Inr (correlate_valid a (rev v)))"

text \<open>\<^verbatim>\<open>10.0 * np.log10(np.maximum(energy, 1e-12))\<close>\<close>

definition to_db :: "real \<Rightarrow> real" where
  "to_db e = 10 * log 10 (max e (1 / 10 ^ 12))"

definition rolling_energy_db :: "real list \<Rightarrow> nat \<Rightarrow> real \<Rightarrow> py_error + (real list \<times> nat)" where
  "rolling_energy_db signal sample_rate frame_ms =
     (let frame_length = frame_length_of sample_rate frame_ms;
          window = replicate frame_length (1 / real frame_length)
      in case np_convolve_valid (map (\<lambda>x. x * x) signal) window of
           Inl err \<Rightarrow> Inl err
         | Inr energy \<Rightarrow> Inr (map to_db energy, frame_length))"

subsection \<open>\<^verbatim>\<open>detect_speech_end\<close>\<close>

text \<open>
  \<^verbatim>\<open>above = energy_db > threshold_db\<close>, elementwise. The array is called \<open>abv\<close> below
  (\<open>above\<close> is a constant of HOL).
\<close>

definition above_threshold :: "real list \<Rightarrow> real \<Rightarrow> bool list" where
  "above_threshold energy_db threshold_db = map (\<lambda>e. threshold_db < e) energy_db"

text \<open>
  The inner loop
  \<^verbatim>\<open>while run_start > 0 and above[run_start - 1]: run_start -= 1\<close>
  as a function of the starting value of \<^verbatim>\<open>run_start\<close>.
\<close>

function find_run_start :: "bool list \<Rightarrow> int \<Rightarrow> int" where
  "find_run_start abv run_start =
     (if 0 < run_start \<and> abv ! nat (run_start - 1)
      then find_run_start abv (run_start - 1)
      else run_start)"
  by pat_completeness auto
termination
  by (relation "measure (\<lambda>(abv, run_start). nat run_start)") auto

declare find_run_start.simps [simp del]

text \<open>
  \<^verbatim>\<open>speech_end_ms = (run_end + frame_length) / sample_rate * 1000.0\<close>; the division is
  Python's true division of two ints.
\<close>

definition speech_end_ms :: "int \<Rightarrow> nat \<Rightarrow> nat \<Rightarrow> py_error + real option" where
  "speech_end_ms run_end frame_length sample_rate =
     (let speech_end_sample = run_end + int frame_length
      in if sample_rate = 0 then Inl (ZeroDivisionError ''division by zero'')
         else Inr (Some (real_of_int speech_end_sample / real sample_rate * 1000)))"

text \<open>
  One pass through the body of \<^verbatim>\<open>while i >= 0\<close>: either the function returns, or the
  loop goes on with a new \<^verbatim>\<open>i\<close>.
\<close>

datatype scan_step = Return "py_error + real option" | Continue int

definition loop_body :: "bool list \<Rightarrow> nat \<Rightarrow> nat \<Rightarrow> int \<Rightarrow> int \<Rightarrow> scan_step" where
  "loop_body abv sample_rate frame_length min_frames i =
     (if \<not> abv ! nat i then Continue (i - 1)
      else let run_end = i;
               run_start = find_run_start abv i;
               run_length = run_end - run_start + 1
           in if min_frames \<le> run_length
              then Return (speech_end_ms run_end frame_length sample_rate)
              else Continue (run_start - 1))"

lemma find_run_start_le: "find_run_start abv i \<le> i"
proof (induction abv i rule: find_run_start.induct)
  case (1 abv run_start)
  show ?case
  proof (cases "0 < run_start \<and> abv ! nat (run_start - 1)")
    case True
    with 1 have "find_run_start abv (run_start - 1) \<le> run_start - 1" by simp
    with True show ?thesis by (subst find_run_start.simps) simp
  next
    case False
    then show ?thesis by (subst find_run_start.simps) auto
  qed
qed

lemma loop_body_Continue_less:
  "loop_body abv sample_rate frame_length min_frames i = Continue i' \<Longrightarrow> i' < i"
  using find_run_start_le [of abv i]
  by (auto simp: loop_body_def Let_def split: if_splits)

function scan :: "bool list \<Rightarrow> nat \<Rightarrow> nat \<Rightarrow> int \<Rightarrow> int \<Rightarrow> py_error + real option" where
  "scan abv sample_rate frame_length min_frames i =
     (if 0 \<le> i
      then (case loop_body abv sample_rate frame_length min_frames i of
              Return r \<Rightarrow> r
            | Continue i' \<Rightarrow> scan abv sample_rate frame_length min_frames i')
      else Inr None)"
  by pat_completeness auto
termination
  by (relation "measure (\<lambda>(abv, sample_rate, frame_length, min_frames, i). nat (i + 1))")
     (auto dest: loop_body_Continue_less)

declare scan.simps [simp del]

definition detect_speech_end ::
  "real list \<Rightarrow> nat \<Rightarrow> nat \<Rightarrow> real \<Rightarrow> int \<Rightarrow> py_error + real option" where
  "detect_speech_end energy_db sample_rate frame_length threshold_db min_frames =
     (let n = int (length energy_db)
      in if n < min_frames then Inr None
         else let abv = above_threshold energy_db threshold_db
              in scan abv sample_rate frame_length min_frames (n - 1))"

text \<open>
  The same loop with a bound on the number of passes: \<open>scan_fuel k\<close> gives up (\<open>None\<close>)
  when the condition of the \<^verbatim>\<open>while\<close> would be tested for the \<open>k+1\<close>-st time.
\<close>

fun scan_fuel ::
  "nat \<Rightarrow> bool list \<Rightarrow> nat \<Rightarrow> nat \<Rightarrow> int \<Rightarrow> int \<Rightarrow> (py_error + real option) option" where
  "scan_fuel 0 abv sample_rate frame_length min_frames i = None"
| "scan_fuel (Suc k) abv sample_rate frame_length min_frames i =
     (if 0 \<le> i
      then (case loop_body abv sample_rate frame_length min_frames i of
              Return r \<Rightarrow> Some r
            | Continue i' \<Rightarrow> scan_fuel k abv sample_rate frame_length min_frames i')
      else Some (Inr None))"

subsection \<open>\<^verbatim>\<open>main\<close>: the loop over the stimuli\<close>

text \<open>
  A stimulus is one \<^verbatim>\<open>.mp3\<close> file of a voice directory: its path and the key
  \<^verbatim>\<open>f'{voice}_{word_normalized}'\<close>, which \<^verbatim>\<open>main\<close> computes before the \<^verbatim>\<open>try\<close>. The listing
  of the directories, \<^verbatim>\<open>strip_accents\<close> and the printing are outside the model.
\<close>

record stimulus =
  key :: string
  mp3_path :: string

text \<open>The two accumulators of \<^verbatim>\<open>main\<close>: the dictionary \<^verbatim>\<open>durations\<close> and the list \<^verbatim>\<open>errors\<close>.\<close>

record state =
  durations :: "string \<rightharpoonup> real"
  errors :: "string list"

text \<open>
  \<^verbatim>\<open>decode_mp3\<close> runs \<^verbatim>\<open>ffprobe\<close> and \<^verbatim>\<open>ffmpeg\<close>; it is a parameter of the model, a function
  from the path to the samples and the sample rate, or to the exception it raises.
\<close>

type_synonym decoder = "string \<Rightarrow> py_error + (real list \<times> nat)"

text \<open>
  A Python float is an IEEE 754 binary64 number, and each operation returns the double
  nearest to the exact result, a tie going to the even significand. \<open>fl64 x\<close> is that
  double: with \<open>e\<close> the binary exponent of \<open>x\<close> (at least \<open>-1022\<close>, below it the doubles are
  subnormal and equally spaced), the doubles around \<open>x\<close> are the multiples of
  \<open>2 powr (e - 52)\<close>. The exponent has no upper bound here: the overflow at \<open>2 ^ 1024\<close>
  would need a signal of more than \<open>2 ^ 1000\<close> samples.
\<close>

definition fl64 :: "real \<Rightarrow> real" where
  "fl64 x =
     (if x = 0 then 0
      else let e = max \<lfloor>log 2 \<bar>x\<bar>\<rfloor> (- 1022);
               ulp = 2 powr real_of_int (e - 52)
           in real_of_int (py_round (x / ulp)) * ulp)"

text \<open>
  \<^verbatim>\<open>round(x, 1)\<close> on a float \<open>x\<close>: CPython writes the exact value of \<open>x\<close> with one digit after
  the point, correctly rounded (a tie going to the even digit), and reads the decimal
  back as the nearest double.
\<close>

definition round1 :: "real \<Rightarrow> real" where
  "round1 x = fl64 (real_of_int (py_round (x * 10)) / 10)"

text \<open>
  Lines 154 to 161, the part of the \<^verbatim>\<open>try\<close> block that can raise: decoding,
  \<^verbatim>\<open>total_ms = len(samples) / sr * 1000.0\<close>, framing and detection. The result is the pair
  \<^verbatim>\<open>(end_ms, total_ms)\<close>, or the exception. \<^verbatim>\<open>len(samples)\<close> and \<^verbatim>\<open>sr\<close> are Python ints: their
  quotient is the double nearest to the exact quotient, and so is its product with
  \<^verbatim>\<open>1000.0\<close>.
\<close>

definition analyse :: "decoder \<Rightarrow> string \<Rightarrow> py_error + (real option \<times> real)" where
  "analyse decode_mp3 path =
     (case decode_mp3 path of
        Inl err \<Rightarrow> Inl err
      | Inr (samples, sr) \<Rightarrow>
          if sr = 0 then Inl (ZeroDivisionError ''division by zero'')
          else let total_ms = fl64 (fl64 (real (length samples) / real sr) * 1000)
               in case rolling_energy_db samples sr FRAME_MS of
                    Inl err \<Rightarrow> Inl err
                  | Inr (energy_db, frame_length) \<Rightarrow>
                      (case detect_speech_end energy_db sr frame_length THRESHOLD_DB MIN_FRAMES of
                         Inl err \<Rightarrow> Inl err
                       | Inr end_ms \<Rightarrow> Inr (end_ms, total_ms)))"

text \<open>
  The body of the loop over the files, lines 153 to 175:
  \<^verbatim>\<open>
      try:
          ...
          if end_ms is None:
              errors.append(f'{key}: no speech detected')
              end_ms = total_ms  # fallback to full duration
          durations[key] = round(end_ms, 1)
      except Exception as e:
          errors.append(f'{key}: {e}')
  \<close>
\<close>

definition process_file :: "decoder \<Rightarrow> state \<Rightarrow> stimulus \<Rightarrow> state" where
  "process_file decode_mp3 st f =
     (case analyse decode_mp3 (mp3_path f) of
        Inl e \<Rightarrow> st\<lparr>errors := errors st @ [key f @ '': '' @ str_of e]\<rparr>
      | Inr (end_ms, total_ms) \<Rightarrow>
          let st1 = (if end_ms = None
                     then st\<lparr>errors := errors st @ [key f @ '': no speech detected'']\<rparr>
                     else st);
              end_ms1 = (case end_ms of None \<Rightarrow> total_ms | Some t \<Rightarrow> t)
          in st1\<lparr>durations := (durations st1)(key f \<mapsto> round1 end_ms1)\<rparr>)"

text \<open>
  The loop over \<^verbatim>\<open>VOICES\<close>: a voice whose directory is missing (\<open>None\<close>) is skipped, the
  \<^verbatim>\<open>.mp3\<close> files of the others are processed in sorted order.
\<close>

fun process_voice :: "decoder \<Rightarrow> state \<Rightarrow> stimulus list option \<Rightarrow> state" where
  "process_voice decode_mp3 st None = st"
| "process_voice decode_mp3 st (Some mp3_files) = foldl (process_file decode_mp3) st mp3_files"

definition main_loop :: "decoder \<Rightarrow> stimulus list option list \<Rightarrow> state" where
  "main_loop decode_mp3 voices =
     foldl (process_voice decode_mp3) \<lparr>durations = Map.empty, errors = []\<rparr> voices"

text \<open>The files of the corpus in the order in which \<^verbatim>\<open>main\<close> reaches them.\<close>

definition corpus_files :: "stimulus list option list \<Rightarrow> stimulus list" where
  "corpus_files voices = concat (map (\<lambda>v. case v of None \<Rightarrow> [] | Some fs \<Rightarrow> fs) voices)"

subsection \<open>Facts about the reverse scan\<close>

lemma scan_skip:
  "lo \<le> i \<Longrightarrow> - 1 \<le> lo \<Longrightarrow> (\<forall>j. lo < j \<and> j \<le> i \<longrightarrow> \<not> abv ! nat j) \<Longrightarrow>
   scan abv sample_rate frame_length min_frames i = scan abv sample_rate frame_length min_frames lo"
proof (induction "nat (i - lo)" arbitrary: i)
  case 0
  then show ?case by simp
next
  case (Suc k)
  then have i: "0 \<le> i" "lo < i" "\<not> abv ! nat i" by auto
  then have step: "loop_body abv sample_rate frame_length min_frames i = Continue (i - 1)"
    by (simp add: loop_body_def)
  have "scan abv sample_rate frame_length min_frames (i - 1)
        = scan abv sample_rate frame_length min_frames lo"
    using Suc i by (intro Suc.hyps(1)) auto
  with step i show ?case by (subst scan.simps) simp
qed

lemma find_run_start_eq:
  "0 \<le> a \<Longrightarrow> a \<le> i \<Longrightarrow> (\<forall>j. a \<le> j \<and> j < i \<longrightarrow> abv ! nat j) \<Longrightarrow>
   a = 0 \<or> \<not> abv ! nat (a - 1) \<Longrightarrow> find_run_start abv i = a"
proof (induction "nat (i - a)" arbitrary: i)
  case 0
  then have "i = a" by simp
  with 0 show ?case by (subst find_run_start.simps) auto
next
  case (Suc k)
  then have i: "a < i" "abv ! nat (i - 1)" by auto
  have "find_run_start abv (i - 1) = a"
    using Suc i by (intro Suc.hyps(1)) auto
  with i Suc.prems show ?case by (subst find_run_start.simps) auto
qed

lemma loop_body_at_run_end:
  assumes "0 \<le> a" "a \<le> b" "\<forall>j. a \<le> j \<and> j \<le> b \<longrightarrow> abv ! nat j"
    and "a = 0 \<or> \<not> abv ! nat (a - 1)"
  shows "loop_body abv sample_rate frame_length min_frames b =
     (if min_frames \<le> b - a + 1 then Return (speech_end_ms b frame_length sample_rate)
      else Continue (a - 1))"
proof -
  have "find_run_start abv b = a"
    using assms by (intro find_run_start_eq) auto
  moreover have "abv ! nat b" using assms by auto
  ultimately show ?thesis
    by (simp add: loop_body_def Let_def)
qed

lemma scan_at_run_end:
  assumes "0 \<le> a" "a \<le> b" "\<forall>j. a \<le> j \<and> j \<le> b \<longrightarrow> abv ! nat j"
    and "a = 0 \<or> \<not> abv ! nat (a - 1)"
  shows "scan abv sample_rate frame_length min_frames b =
     (if min_frames \<le> b - a + 1 then speech_end_ms b frame_length sample_rate
      else scan abv sample_rate frame_length min_frames (a - 1))"
proof -
  have "0 \<le> b" using assms by simp
  then show ?thesis
    by (subst scan.simps) (simp add: loop_body_at_run_end [OF assms])
qed

lemma scan_neg: "i < 0 \<Longrightarrow> scan abv sample_rate frame_length min_frames i = Inr None"
  by (subst scan.simps) simp

lemma scan_Some:
  "scan abv sample_rate frame_length min_frames i = Inr (Some ms) \<Longrightarrow>
   \<exists>b. 0 \<le> b \<and> b \<le> i \<and> sample_rate \<noteq> 0 \<and>
       ms = real_of_int (b + int frame_length) / real sample_rate * 1000"
proof (induction abv sample_rate frame_length min_frames i rule: scan.induct)
  case (1 abv sample_rate frame_length min_frames i)
  show ?case
  proof (cases "0 \<le> i")
    case False
    with "1.prems" show ?thesis by (simp add: scan_neg)
  next
    case True
    show ?thesis
    proof (cases "loop_body abv sample_rate frame_length min_frames i")
      case (Return r)
      with True "1.prems" have r: "r = Inr (Some ms)" by (subst (asm) scan.simps) simp
      from Return have "r = speech_end_ms i frame_length sample_rate"
        by (auto simp: loop_body_def Let_def split: if_splits)
      with r True show ?thesis
        by (auto simp: speech_end_ms_def Let_def split: if_splits)
    next
      case (Continue i')
      with True "1.prems" have "scan abv sample_rate frame_length min_frames i' = Inr (Some ms)"
        by (subst (asm) scan.simps) simp
      with "1.IH" [OF True Continue] obtain b where
        "0 \<le> b" "b \<le> i'" "sample_rate \<noteq> 0"
        "ms = real_of_int (b + int frame_length) / real sample_rate * 1000" by blast
      moreover have "i' < i" using Continue by (rule loop_body_Continue_less)
      ultimately show ?thesis by (intro exI [of _ b]) auto
    qed
  qed
qed

lemma above_threshold_nth:
  "j < length energy_db \<Longrightarrow> above_threshold energy_db t ! j = (t < energy_db ! j)"
  by (simp add: above_threshold_def)

lemma scan_skip_segment:
  assumes "\<forall>e\<in>set seg. e \<le> t"
  shows "scan (above_threshold (xs @ seg @ ys) t) sample_rate frame_length min_frames
           (int (length xs + length seg) - 1)
         = scan (above_threshold (xs @ seg @ ys) t) sample_rate frame_length min_frames
           (int (length xs) - 1)"
proof (rule scan_skip)
  show "int (length xs) - 1 \<le> int (length xs + length seg) - 1" by simp
  show "- 1 \<le> int (length xs) - 1" by simp
  show "\<forall>j. int (length xs) - 1 < j \<and> j \<le> int (length xs + length seg) - 1 \<longrightarrow>
          \<not> above_threshold (xs @ seg @ ys) t ! nat j"
  proof (intro allI impI)
    fix j :: int
    assume j: "int (length xs) - 1 < j \<and> j \<le> int (length xs + length seg) - 1"
    then have k: "length xs \<le> nat j" "nat j - length xs < length seg" by auto
    then have "(xs @ seg @ ys) ! nat j = seg ! (nat j - length xs)"
      by (simp add: nth_append)
    moreover have "seg ! (nat j - length xs) \<in> set seg" using k by simp
    moreover have "nat j < length (xs @ seg @ ys)" using k by simp
    ultimately show "\<not> above_threshold (xs @ seg @ ys) t ! nat j"
      using assms by (simp add: above_threshold_nth not_less)
  qed
qed

lemma run_segment_indices:
  assumes run: "\<forall>e\<in>set seg. t < e" and ne: "seg \<noteq> []"
    and left: "xs = [] \<or> last xs \<le> t"
  shows "int (length xs) \<le> int (length xs + length seg) - 1"
    and "\<forall>j. int (length xs) \<le> j \<and> j \<le> int (length xs + length seg) - 1 \<longrightarrow>
           above_threshold (xs @ seg @ ys) t ! nat j"
    and "int (length xs) = 0 \<or> \<not> above_threshold (xs @ seg @ ys) t ! nat (int (length xs) - 1)"
proof -
  let ?abv = "above_threshold (xs @ seg @ ys) t"
  let ?a = "int (length xs)"
  let ?b = "int (length xs + length seg) - 1"
  show "?a \<le> ?b" using ne by (cases seg) auto
  show "\<forall>j. ?a \<le> j \<and> j \<le> ?b \<longrightarrow> ?abv ! nat j"
  proof (intro allI impI)
    fix j :: int
    assume "?a \<le> j \<and> j \<le> ?b"
    then have k: "length xs \<le> nat j" "nat j - length xs < length seg" by auto
    then have "(xs @ seg @ ys) ! nat j = seg ! (nat j - length xs)"
      by (simp add: nth_append)
    moreover have "seg ! (nat j - length xs) \<in> set seg" using k by simp
    moreover have "nat j < length (xs @ seg @ ys)" using k by simp
    ultimately show "?abv ! nat j"
      using run by (simp add: above_threshold_nth)
  qed
  show "?a = 0 \<or> \<not> ?abv ! nat (?a - 1)"
  proof (cases "xs = []")
    case True
    then show ?thesis by simp
  next
    case False
    then have idx: "nat (?a - 1) = length xs - 1" by simp
    have lt: "length xs - 1 < length (xs @ seg @ ys)"
      using False by (cases xs) auto
    have "(xs @ seg @ ys) ! (length xs - 1) = last xs"
      using False by (simp add: nth_append last_conv_nth)
    with left False have "\<not> above_threshold (xs @ seg @ ys) t ! (length xs - 1)"
      unfolding above_threshold_nth [OF lt] by simp
    then show ?thesis unfolding idx by blast
  qed
qed

lemma loop_body_run_segment:
  assumes run: "\<forall>e\<in>set seg. t < e" and ne: "seg \<noteq> []"
    and left: "xs = [] \<or> last xs \<le> t"
  shows "loop_body (above_threshold (xs @ seg @ ys) t) sample_rate frame_length min_frames
           (int (length xs + length seg) - 1)
         = (if min_frames \<le> int (length seg)
            then Return (speech_end_ms (int (length xs + length seg) - 1) frame_length
                   sample_rate)
            else Continue (int (length xs) - 1))"
proof -
  have a0: "0 \<le> int (length xs)" by simp
  have "int (length xs + length seg) - 1 - int (length xs) + 1 = int (length seg)" by simp
  with loop_body_at_run_end [OF a0 run_segment_indices(1) [OF assms]
      run_segment_indices(2) [OF assms, of ys] run_segment_indices(3) [OF assms, of ys],
      of sample_rate frame_length min_frames]
  show ?thesis by simp
qed

lemma scan_run_segment:
  assumes run: "\<forall>e\<in>set seg. t < e" and ne: "seg \<noteq> []"
    and left: "xs = [] \<or> last xs \<le> t"
  shows "scan (above_threshold (xs @ seg @ ys) t) sample_rate frame_length min_frames
           (int (length xs + length seg) - 1)
         = (if min_frames \<le> int (length seg)
            then speech_end_ms (int (length xs + length seg) - 1) frame_length sample_rate
            else scan (above_threshold (xs @ seg @ ys) t) sample_rate frame_length min_frames
                   (int (length xs) - 1))"
proof -
  have a0: "0 \<le> int (length xs)" by simp
  have "int (length xs + length seg) - 1 - int (length xs) + 1 = int (length seg)" by simp
  with scan_at_run_end [OF a0 run_segment_indices(1) [OF assms]
      run_segment_indices(2) [OF assms, of ys] run_segment_indices(3) [OF assms, of ys],
      of sample_rate frame_length min_frames]
  show ?thesis by simp
qed

lemma speech_end_ms_pos:
  "0 < sample_rate \<Longrightarrow> 0 < k \<Longrightarrow>
   speech_end_ms (int k - 1) frame_length sample_rate
   = Inr (Some (real (k - 1 + frame_length) / real sample_rate * 1000))"
proof -
  assume sr: "0 < sample_rate" and k: "0 < k"
  have "int k - 1 + int frame_length = int (k - 1 + frame_length)" using k by simp
  then have "real_of_int (int k - 1 + int frame_length) = real (k - 1 + frame_length)"
    by (simp only: of_int_of_nat_eq)
  with sr show ?thesis by (simp only: speech_end_ms_def Let_def) simp
qed

lemma find_run_start_ge0: "0 \<le> i \<Longrightarrow> 0 \<le> find_run_start abv i"
proof (induction abv i rule: find_run_start.induct)
  case (1 abv run_start)
  show ?case
  proof (cases "0 < run_start \<and> abv ! nat (run_start - 1)")
    case True
    with 1 have "0 \<le> find_run_start abv (run_start - 1)" by simp
    with True show ?thesis by (subst find_run_start.simps) simp
  next
    case False
    with "1.prems" show ?thesis by (subst find_run_start.simps) auto
  qed
qed

lemma loop_body_Continue_eq:
  "loop_body abv sample_rate frame_length min_frames i = Continue i' \<Longrightarrow>
   i' = (if abv ! nat i then find_run_start abv i - 1 else i - 1)"
  by (auto simp: loop_body_def Let_def split: if_splits)

lemma loop_body_Continue_ge:
  "0 \<le> i \<Longrightarrow> loop_body abv sample_rate frame_length min_frames i = Continue i' \<Longrightarrow> - 1 \<le> i'"
  using find_run_start_ge0 [of i abv]
  by (auto simp: loop_body_def Let_def split: if_splits)

lemma scan_fuel_enough:
  "- 1 \<le> i \<Longrightarrow> nat (i + 2) \<le> k \<Longrightarrow>
   scan_fuel k abv sample_rate frame_length min_frames i
   = Some (scan abv sample_rate frame_length min_frames i)"
proof (induction k arbitrary: i)
  case 0
  then show ?case by simp
next
  case (Suc k)
  show ?case
  proof (cases "0 \<le> i")
    case False
    then show ?thesis by (simp add: scan_neg)
  next
    case True
    show ?thesis
    proof (cases "loop_body abv sample_rate frame_length min_frames i")
      case (Return r)
      with True show ?thesis by (subst scan.simps) simp
    next
      case (Continue i')
      have "i' < i" using Continue by (rule loop_body_Continue_less)
      moreover have "- 1 \<le> i'" using True Continue by (rule loop_body_Continue_ge)
      ultimately have "scan_fuel k abv sample_rate frame_length min_frames i'
        = Some (scan abv sample_rate frame_length min_frames i')"
        using Suc.prems by (intro Suc.IH) auto
      with True Continue show ?thesis by (subst scan.simps) simp
    qed
  qed
qed

subsection \<open>Facts about \<^verbatim>\<open>rolling_energy_db\<close>\<close>

lemma length_correlate_valid:
  "length (correlate_valid a w) = length a - length w + 1"
  by (simp add: correlate_valid_def)

lemma frame_length_of_pos: "0 < frame_length_of sample_rate frame_ms"
  by (simp add: frame_length_of_def)

lemma correlate_valid_window:
  assumes "length w \<le> n"
  shows "correlate_valid (replicate n c) w = replicate (n - length w + 1) (c * sum_list w)"
proof (rule nth_equalityI)
  show "length (correlate_valid (replicate n c) w)
        = length (replicate (n - length w + 1) (c * sum_list w))"
    by (simp add: length_correlate_valid)
next
  fix k
  assume "k < length (correlate_valid (replicate n c) w)"
  then have k: "k < n - length w + 1" by (simp add: length_correlate_valid)
  have "map (\<lambda>j. replicate n c ! (k + j) * w ! j) [0..<length w]
        = map (\<lambda>j. c * w ! j) [0..<length w]"
    using k assms by (intro map_cong) auto
  then have "sum_list (map (\<lambda>j. replicate n c ! (k + j) * w ! j) [0..<length w])
        = sum_list (map (\<lambda>j. c * w ! j) [0..<length w])"
    by (simp only:)
  also have "\<dots> = c * sum_list (map (\<lambda>j. w ! j) [0..<length w])"
    by (rule sum_list_const_mult)
  also have "\<dots> = c * sum_list w" by (simp add: map_nth)
  finally have inner: "sum_list (map (\<lambda>j. replicate n c ! (k + j) * w ! j) [0..<length w])
        = c * sum_list w" .
  have "correlate_valid (replicate n c) w ! k
        = sum_list (map (\<lambda>j. replicate n c ! (k + j) * w ! j) [0..<length w])"
    unfolding correlate_valid_def using k by (subst nth_map) (simp_all del: upt_Suc)
  moreover have "replicate (n - length w + 1) (c * sum_list w) ! k = c * sum_list w"
    using k by (simp only: nth_replicate)
  ultimately show "correlate_valid (replicate n c) w ! k
        = replicate (n - length w + 1) (c * sum_list w) ! k"
    using inner by (simp only:)
qed

lemma rolling_energy_db_empty:
  "rolling_energy_db [] sample_rate frame_ms = Inl (ValueError ''v cannot be empty'')"
  using frame_length_of_pos [of sample_rate frame_ms]
  by (simp add: rolling_energy_db_def np_convolve_valid_def Let_def)

lemma rolling_energy_db_length:
  assumes "rolling_energy_db signal sample_rate frame_ms = Inr (energy_db, frame_length)"
  shows "frame_length = frame_length_of sample_rate frame_ms"
    and "signal \<noteq> []"
    and "length energy_db =
          (if length signal < frame_length then frame_length - length signal + 1
           else length signal - frame_length + 1)"
proof -
  show "signal \<noteq> []" using assms by (auto simp: rolling_energy_db_empty)
  show fl: "frame_length = frame_length_of sample_rate frame_ms"
    using assms by (auto simp: rolling_energy_db_def Let_def split: sum.splits)
  show "length energy_db =
          (if length signal < frame_length then frame_length - length signal + 1
           else length signal - frame_length + 1)"
    using assms unfolding fl
    by (auto simp: rolling_energy_db_def np_convolve_valid_def Let_def
        length_correlate_valid split: sum.splits if_splits)
qed

lemma rolling_energy_db_short:
  assumes "signal \<noteq> []" and "length signal < frame_length_of sample_rate frame_ms"
  shows "rolling_energy_db signal sample_rate frame_ms =
     Inr (replicate (frame_length_of sample_rate frame_ms - length signal + 1)
            (to_db (sum_list (map (\<lambda>x. x * x) signal)
                    / real (frame_length_of sample_rate frame_ms))),
          frame_length_of sample_rate frame_ms)"
proof -
  let ?fl = "frame_length_of sample_rate frame_ms"
  let ?sq = "map (\<lambda>x. x * x) signal"
  have "np_convolve_valid ?sq (replicate ?fl (1 / real ?fl))
        = Inr (correlate_valid (replicate ?fl (1 / real ?fl)) (rev ?sq))"
    using assms by (simp add: np_convolve_valid_def Let_def)
  also have "correlate_valid (replicate ?fl (1 / real ?fl)) (rev ?sq)
        = replicate (?fl - length signal + 1) (1 / real ?fl * sum_list (rev ?sq))"
    using assms(2) correlate_valid_window [of "rev ?sq" ?fl "1 / real ?fl"] by simp
  also have "1 / real ?fl * sum_list (rev ?sq) = sum_list ?sq / real ?fl"
    by simp
  finally show ?thesis
    by (simp add: rolling_energy_db_def Let_def)
qed

lemma frame_length_of_16000: "frame_length_of 16000 10 = 160"
  by (simp add: frame_length_of_def py_round_def)

lemma to_db_zero: "to_db 0 = - 120"
proof -
  have eq: "(1::real) / 10 ^ 12 = 10 powr (- 12)"
    by (simp add: powr_minus_divide)
  have "log 10 ((10::real) powr (- 12)) = - 12" by simp
  then have "log 10 ((1::real) / 10 ^ 12) = - 12" by (simp only: eq)
  moreover have "max (0::real) (1 / 10 ^ 12) = 1 / 10 ^ 12" by simp
  ultimately show ?thesis by (simp only: to_db_def)
qed

lemma to_db_above:
  assumes "1 / 10 ^ 12 \<le> e" and "10 powr (t / 10) < e"
  shows "t < to_db e"
proof -
  have "(0::real) < 1 / 10 ^ 12" by simp
  with assms(1) have e: "0 < e" by linarith
  have "(t / 10 < log 10 e) = (10 powr (t / 10) < e)"
    using e by (intro less_log_iff) auto
  with assms(2) have "t / 10 < log 10 e" by blast
  then have "t < 10 * log 10 e" by linarith
  moreover have "max e (1 / 10 ^ 12) = e" using assms(1) by simp
  ultimately show ?thesis by (simp only: to_db_def)
qed

lemma detect_speech_end_constant_profile:
  assumes "threshold_db < x" and "0 < n" and "min_frames \<le> int n" and "0 < sample_rate"
  shows "detect_speech_end (replicate n x) sample_rate frame_length threshold_db min_frames
         = Inr (Some (real (n - 1 + frame_length) / real sample_rate * 1000))"
proof -
  have run: "\<forall>e\<in>set (replicate n x). threshold_db < e" using assms(1) by simp
  have ne: "replicate n x \<noteq> []" using assms(2) by simp
  have "scan (above_threshold (replicate n x) threshold_db) sample_rate frame_length min_frames
          (int n - 1)
        = speech_end_ms (int n - 1) frame_length sample_rate"
    using scan_run_segment [OF run ne, of "[]" "[]" sample_rate frame_length min_frames]
      assms(3) by simp
  also have "\<dots> = Inr (Some (real (n - 1 + frame_length) / real sample_rate * 1000))"
    using assms(4,2) by (rule speech_end_ms_pos)
  finally show ?thesis
    using assms(3) by (simp add: detect_speech_end_def Let_def)
qed

lemma rolling_energy_db_constant:
  assumes "frame_length_of sample_rate frame_ms \<le> n"
  shows "rolling_energy_db (replicate n c) sample_rate frame_ms =
     Inr (replicate (n - frame_length_of sample_rate frame_ms + 1) (to_db (c * c)),
          frame_length_of sample_rate frame_ms)"
proof -
  let ?fl = "frame_length_of sample_rate frame_ms"
  have pos: "0 < ?fl" by (rule frame_length_of_pos)
  have "np_convolve_valid (map (\<lambda>x. x * x) (replicate n c)) (replicate ?fl (1 / real ?fl))
        = Inr (correlate_valid (replicate n (c * c)) (rev (replicate ?fl (1 / real ?fl))))"
    using assms pos by (simp add: np_convolve_valid_def Let_def)
  also have "correlate_valid (replicate n (c * c)) (rev (replicate ?fl (1 / real ?fl)))
        = replicate (n - ?fl + 1) (c * c * sum_list (rev (replicate ?fl (1 / real ?fl))))"
    using assms correlate_valid_window [of "rev (replicate ?fl (1 / real ?fl))" n "c * c"]
    by simp
  also have "c * c * sum_list (rev (replicate ?fl (1 / real ?fl))) = c * c"
    using pos by (simp add: sum_list_replicate)
  finally show ?thesis
    by (simp add: rolling_energy_db_def Let_def)
qed

lemma to_db_one: "to_db 1 = 0"
  by (simp add: to_db_def)

lemma detect_speech_end_replicate_below:
  assumes "x \<le> threshold_db"
  shows "detect_speech_end (replicate n x) sample_rate frame_length threshold_db min_frames
         = Inr None"
proof -
  have below: "\<forall>e\<in>set (replicate n x). e \<le> threshold_db" using assms by simp
  have "scan (above_threshold (replicate n x) threshold_db) sample_rate frame_length min_frames
          (int n - 1)
        = scan (above_threshold (replicate n x) threshold_db) sample_rate frame_length
            min_frames (- 1)"
    using scan_skip_segment [OF below, of "[]" "[]" sample_rate frame_length min_frames]
    by simp
  then show ?thesis
    by (simp add: detect_speech_end_def Let_def scan_neg)
qed

subsection \<open>Facts about the rounding to binary64\<close>

lemma py_round_nearest: "\<bar>real_of_int (py_round y) - y\<bar> \<le> 1 / 2"
proof -
  have "real_of_int \<lfloor>y\<rfloor> \<le> y" and "y < real_of_int \<lfloor>y\<rfloor> + 1" by linarith+
  then show ?thesis unfolding py_round_def Let_def by (auto simp: abs_le_iff)
qed

lemma floor_log2_eq:
  assumes "2 powr real_of_int e \<le> x" and "x < 2 powr real_of_int (e + 1)"
  shows "\<lfloor>log 2 x\<rfloor> = e"
proof -
  have "0 < 2 powr real_of_int e" by simp
  with assms(1) have pos: "0 < x" by linarith
  have "real_of_int e \<le> log 2 x"
    using assms(1) pos by (simp add: le_log_iff)
  moreover have "log 2 x < real_of_int (e + 1)"
    using assms(2) pos by (simp add: log_less_iff)
  ultimately show ?thesis by (simp add: floor_eq_iff)
qed

text \<open>The double nearest to \<open>x\<close>, for \<open>x\<close> in the binade \<open>[2 ^ n, 2 ^ (n + 1))\<close>.\<close>

lemma fl64_above_one:
  assumes "2 ^ n \<le> \<bar>x\<bar>" and "\<bar>x\<bar> < 2 * 2 ^ n" and "n \<le> 52"
  shows "fl64 x = real_of_int (py_round (x * 2 ^ (52 - n))) / 2 ^ (52 - n)"
proof -
  have p: "2 powr real_of_int (int n) = 2 ^ n"
    by (simp add: powr_realpow)
  have q: "2 powr real_of_int (int n + 1) = 2 * 2 ^ n"
    by (simp add: powr_add powr_realpow)
  have e: "\<lfloor>log 2 \<bar>x\<bar>\<rfloor> = int n"
    by (rule floor_log2_eq) (simp_all only: p q assms)
  have "(0::real) < 2 ^ n" by simp
  with assms(1) have "0 < \<bar>x\<bar>" by linarith
  then have x: "x \<noteq> 0" by simp
  have u: "2 powr real_of_int (int n - 52) = 1 / 2 ^ (52 - n)"
  proof -
    have "int n - 52 = - int (52 - n)" using assms(3) by simp
    then have "2 powr real_of_int (int n - 52) = 2 powr (- real (52 - n))"
      by (metis of_int_minus of_int_of_nat_eq)
    also have "\<dots> = 1 / 2 ^ (52 - n)"
      by (simp only: powr_minus_divide powr_realpow zero_less_numeral)
    finally show ?thesis .
  qed
  have m: "max (int n) (- 1022) = int n" by simp
  show ?thesis
    unfolding fl64_def Let_def e m u using x by simp
qed

text \<open>The same in the binade \<open>[1 / 2 ^ n, 2 / 2 ^ n)\<close>.\<close>

lemma fl64_below_one:
  assumes "1 / 2 ^ n \<le> \<bar>x\<bar>" and "\<bar>x\<bar> < 2 / 2 ^ n" and "n \<le> 1022"
  shows "fl64 x = real_of_int (py_round (x * 2 ^ (n + 52))) / 2 ^ (n + 52)"
proof -
  have p: "2 powr real_of_int (- int n) = 1 / 2 ^ n"
    by (simp add: powr_minus_divide powr_realpow)
  have q: "2 powr real_of_int (- int n + 1) = 2 / 2 ^ n"
    by (simp add: powr_diff powr_realpow)
  have e: "\<lfloor>log 2 \<bar>x\<bar>\<rfloor> = - int n"
    by (rule floor_log2_eq) (simp_all only: p q assms)
  have "(0::real) < 1 / 2 ^ n" by simp
  with assms(1) have "0 < \<bar>x\<bar>" by linarith
  then have x: "x \<noteq> 0" by simp
  have m: "max (- int n) (- 1022) = - int n" using assms(3) by simp
  have u: "2 powr real_of_int (- int n - 52) = 1 / 2 ^ (n + 52)"
  proof -
    have "- int n - 52 = - int (n + 52)" by simp
    then have "2 powr real_of_int (- int n - 52) = 2 powr (- real (n + 52))"
      by (metis of_int_minus of_int_of_nat_eq)
    also have "\<dots> = 1 / 2 ^ (n + 52)"
      by (simp only: powr_minus_divide powr_realpow zero_less_numeral)
    finally show ?thesis .
  qed
  show ?thesis
    unfolding fl64_def Let_def e m u using x by simp
qed

text \<open>A rounding to the nearest double moves a normal number by at most half an ulp.\<close>

lemma fl64_relative_error:
  assumes "2 powr (- 1022) \<le> \<bar>x\<bar>"
  shows "\<bar>fl64 x - x\<bar> \<le> \<bar>x\<bar> / 2 ^ 53"
proof -
  define e where "e = \<lfloor>log 2 \<bar>x\<bar>\<rfloor>"
  define u :: real where "u = 2 powr real_of_int (e - 52)"
  have "(0::real) < 2 powr (- 1022)" by simp
  with assms have pos: "0 < \<bar>x\<bar>" by linarith
  then have x: "x \<noteq> 0" by simp
  have "- 1022 \<le> log 2 \<bar>x\<bar>" using assms pos by (simp add: le_log_iff)
  then have e_lo: "- 1022 \<le> e" unfolding e_def by (simp add: le_floor_iff)
  have "real_of_int e \<le> log 2 \<bar>x\<bar>" unfolding e_def by simp
  then have pe: "2 powr real_of_int e \<le> \<bar>x\<bar>" using pos by (simp add: le_log_iff)
  have u_pos: "0 < u" unfolding u_def by simp
  have u_e: "u = 2 powr real_of_int e / 2 ^ 52"
    unfolding u_def by (simp add: powr_diff)
  have fl: "fl64 x = real_of_int (py_round (x / u)) * u"
    using x e_lo unfolding fl64_def Let_def e_def [symmetric] u_def by (simp add: max_def)
  have "\<bar>real_of_int (py_round (x / u)) - x / u\<bar> \<le> 1 / 2"
    by (rule py_round_nearest)
  then have "\<bar>real_of_int (py_round (x / u)) - x / u\<bar> * u \<le> 1 / 2 * u"
    using u_pos by (simp only: mult_le_cancel_right_pos)
  moreover have "\<bar>real_of_int (py_round (x / u)) - x / u\<bar> * u
      = \<bar>real_of_int (py_round (x / u)) * u - x\<bar>"
  proof -
    have "\<bar>real_of_int (py_round (x / u)) - x / u\<bar> * u
        = \<bar>(real_of_int (py_round (x / u)) - x / u) * u\<bar>"
      using u_pos by (simp add: abs_mult)
    also have "(real_of_int (py_round (x / u)) - x / u) * u
        = real_of_int (py_round (x / u)) * u - x"
      using u_pos by (simp add: algebra_simps)
    finally show ?thesis .
  qed
  ultimately have "\<bar>fl64 x - x\<bar> \<le> u / 2" by (simp add: fl)
  also have "u / 2 = 2 powr real_of_int e / 2 ^ 53" by (simp add: u_e)
  also have "\<dots> \<le> \<bar>x\<bar> / 2 ^ 53" using pe by (simp add: divide_right_mono)
  finally show ?thesis .
qed

text \<open>
  \<^verbatim>\<open>len(samples) / sr * 1000.0\<close> as the source computes it is the exact
  \<open>samples / sample_rate * 1000\<close> up to a relative error of \<open>1 / 2 ^ 51\<close>.
\<close>

lemma full_duration_close:
  assumes "1 / 2 ^ 1000 \<le> real n / real sr"
  shows "\<bar>fl64 (fl64 (real n / real sr) * 1000) - real n / real sr * 1000\<bar>
         \<le> real n / real sr * 1000 / 2 ^ 51"
proof -
  define q where "q = real n / real sr"
  define a where "a = fl64 q"
  have small: "(2::real) powr (- 1022) = 1 / 2 ^ 1022"
    by (simp add: powr_minus_divide)
  have "(0::real) < 1 / 2 ^ 1000" by simp
  with assms have q_pos: "0 < q" unfolding q_def by linarith
  have "(1::real) / 2 ^ 1022 \<le> 1 / 2 ^ 1000"
    by (intro divide_left_mono power_increasing) simp_all
  with assms have "2 powr (- 1022) \<le> \<bar>q\<bar>" unfolding q_def small by linarith
  then have "\<bar>a - q\<bar> \<le> \<bar>q\<bar> / 2 ^ 53" unfolding a_def by (rule fl64_relative_error)
  then have aq: "\<bar>a - q\<bar> \<le> q / 2 ^ 53" using q_pos by simp
  have "q / 2 ^ 53 \<le> q / 2" using q_pos by (intro divide_left_mono) simp_all
  with aq have a_lo: "q / 2 \<le> a" and a_hi: "a \<le> 2 * q" using q_pos by linarith+
  have "(1::real) / 2 ^ 1022 \<le> 1 / 2 ^ 1000 / 2"
  proof -
    have "(1::real) / 2 ^ 1000 / 2 = 1 / 2 ^ 1001" by simp
    moreover have "(1::real) / 2 ^ 1022 \<le> 1 / 2 ^ 1001"
      by (intro divide_left_mono power_increasing) simp_all
    ultimately show ?thesis by simp
  qed
  moreover have "1 / 2 ^ 1000 / 2 \<le> q / 2"
    using assms unfolding q_def by (rule divide_right_mono) simp
  ultimately have "1 / 2 ^ 1022 \<le> a * 1000" using a_lo q_pos by linarith
  then have "2 powr (- 1022) \<le> \<bar>a * 1000\<bar>" unfolding small by linarith
  then have "\<bar>fl64 (a * 1000) - a * 1000\<bar> \<le> \<bar>a * 1000\<bar> / 2 ^ 53"
    by (rule fl64_relative_error)
  moreover have "\<bar>a * 1000\<bar> = a * 1000" using a_lo q_pos by simp
  ultimately have "\<bar>fl64 (a * 1000) - a * 1000\<bar> \<le> a * 1000 / 2 ^ 53" by simp
  also have "\<dots> \<le> 2 * q * 1000 / 2 ^ 53"
    using a_hi by (intro divide_right_mono) simp_all
  finally have b: "\<bar>fl64 (a * 1000) - a * 1000\<bar> \<le> 2 * q * 1000 / 2 ^ 53" .
  have c: "\<bar>a * 1000 - q * 1000\<bar> \<le> q * 1000 / 2 ^ 53"
  proof -
    define d where "d = q / 2 ^ 53"
    from aq have "\<bar>a - q\<bar> \<le> d" by (simp only: d_def)
    then have "\<bar>a * 1000 - q * 1000\<bar> \<le> d * 1000" by linarith
    also have "d * 1000 = q * 1000 / 2 ^ 53" by (simp add: d_def)
    finally show ?thesis .
  qed
  have "\<bar>fl64 (a * 1000) - q * 1000\<bar> \<le> 2 * q * 1000 / 2 ^ 53 + q * 1000 / 2 ^ 53"
    using b c by linarith
  also have "\<dots> \<le> q * 1000 / 2 ^ 51" using q_pos by simp
  finally show ?thesis unfolding a_def q_def .
qed

text \<open>
  \<^verbatim>\<open>round(x, 1)\<close> is the double nearest to a decimal with one digit after the point, one of
  the two such decimals nearest to \<open>x\<close>.
\<close>

lemma round1_nearest_decimal:
  "\<exists>k. round1 x = fl64 (real_of_int k / 10) \<and> \<bar>real_of_int k / 10 - x\<bar> \<le> 1 / 20"
proof (intro exI [of _ "py_round (x * 10)"] conjI)
  show "round1 x = fl64 (real_of_int (py_round (x * 10)) / 10)"
    by (simp add: round1_def)
  have "\<bar>real_of_int (py_round (x * 10)) - x * 10\<bar> \<le> 1 / 2"
    by (rule py_round_nearest)
  then show "\<bar>real_of_int (py_round (x * 10)) / 10 - x\<bar> \<le> 1 / 20"
    by linarith
qed

text \<open>A tie goes to the even digit: \<^verbatim>\<open>round(0.25, 1) = 0.2\<close> and \<^verbatim>\<open>round(0.75, 1) = 0.8\<close>.\<close>

lemma round1_tie_to_even:
  "round1 (1 / 4) = fl64 (1 / 5)" "round1 (3 / 4) = fl64 (4 / 5)"
  by (simp_all add: round1_def py_round_def)

text \<open>A silent signal of 500 ms at 16 kHz: every operation is exact.\<close>

lemma fl64_half: "fl64 (1 / 2) = 1 / 2"
  using fl64_below_one [of 1 "1 / 2"] by (simp add: py_round_def)

lemma fl64_500: "fl64 500 = 500"
  using fl64_above_one [of 8 500] by (simp add: py_round_def)

lemma round1_500: "round1 500 = 500"
  by (simp add: round1_def py_round_def fl64_500)

lemma stored_duration_8000:
  "round1 (fl64 (fl64 (real (length (replicate 8000 (0::real))) / real (16000::nat)) * 1000))
   = 500"
  by (simp add: fl64_half fl64_500 round1_500)

text \<open>
  4012 samples at 16 kHz last 250.75 ms. The doubles the source goes through:
  \<^verbatim>\<open>4012 / 16000 = 0.25075\<close> (below the exact quotient), \<^verbatim>\<open>* 1000.0 = 250.74999999999997\<close>, and
  \<^verbatim>\<open>round(250.74999999999997, 1) = 250.7\<close>, the double \<open>4410361041335091 / 2 ^ 44\<close>.
\<close>

lemma fl64_quotient_4012: "fl64 (4012 / 16000) = 4517110426252607 / 2 ^ 54"
  using fl64_below_one [of 2 "4012 / 16000"] by (simp add: py_round_def)

lemma fl64_product_4012:
  "fl64 (4517110426252607 / 2 ^ 54 * 1000) = 8822481301274623 / 2 ^ 45"
  using fl64_above_one [of 7 "4517110426252607 / 2 ^ 54 * 1000"] by (simp add: py_round_def)

lemma py_round_4012: "py_round (8822481301274623 / 2 ^ 45 * 10) = 2507"
  by (simp add: py_round_def)

lemma fl64_decimal_2507: "fl64 (2507 / 10) = 4410361041335091 / 2 ^ 44"
  using fl64_above_one [of 7 "2507 / 10"] by (simp add: py_round_def)

lemma stored_duration_4012:
  "round1 (fl64 (fl64 (real (length (replicate 4012 (0::real))) / real (16000::nat)) * 1000))
   = 4410361041335091 / 2 ^ 44"
  by (simp only: length_replicate of_nat_numeral fl64_quotient_4012 fl64_product_4012
      round1_def py_round_4012 of_int_numeral fl64_decimal_2507)

subsection \<open>Facts about the loop over the stimuli\<close>

lemma process_file_failure:
  "analyse decode_mp3 (mp3_path f) = Inl e \<Longrightarrow>
   process_file decode_mp3 st f = st\<lparr>errors := errors st @ [key f @ '': '' @ str_of e]\<rparr>"
  by (simp add: process_file_def)

lemma process_file_not_found:
  "analyse decode_mp3 (mp3_path f) = Inr (None, total_ms) \<Longrightarrow>
   process_file decode_mp3 st f
   = st\<lparr>errors := errors st @ [key f @ '': no speech detected''],
        durations := (durations st)(key f \<mapsto> round1 total_ms)\<rparr>"
  by (simp add: process_file_def)

lemma process_file_found:
  "analyse decode_mp3 (mp3_path f) = Inr (Some t, total_ms) \<Longrightarrow>
   process_file decode_mp3 st f = st\<lparr>durations := (durations st)(key f \<mapsto> round1 t)\<rparr>"
  by (simp add: process_file_def)

lemma process_file_cases:
  obtains (failure) e where "analyse decode_mp3 (mp3_path f) = Inl e"
  | (not_found) total_ms where "analyse decode_mp3 (mp3_path f) = Inr (None, total_ms)"
  | (found) t total_ms where "analyse decode_mp3 (mp3_path f) = Inr (Some t, total_ms)"
proof (cases "analyse decode_mp3 (mp3_path f)")
  case (Inl e)
  then show ?thesis by (rule failure)
next
  case (Inr p)
  obtain r total_ms where p: "p = (r, total_ms)" by (cases p)
  show ?thesis
  proof (cases r)
    case None
    with Inr p show ?thesis by (intro not_found [of total_ms]) simp
  next
    case (Some t)
    with Inr p show ?thesis by (intro found [of t total_ms]) simp
  qed
qed

lemma process_file_durations_cong:
  assumes "durations st = durations st'"
  shows "durations (process_file decode_mp3 st f) = durations (process_file decode_mp3 st' f)"
proof (cases rule: process_file_cases [of decode_mp3 f])
  case (failure e)
  then show ?thesis using assms by (simp add: process_file_failure)
next
  case (not_found total_ms)
  then show ?thesis using assms by (simp add: process_file_not_found)
next
  case (found t total_ms)
  then show ?thesis using assms by (simp add: process_file_found)
qed

lemma foldl_process_file_durations_cong:
  "durations st = durations st' \<Longrightarrow>
   durations (foldl (process_file decode_mp3) st fs)
   = durations (foldl (process_file decode_mp3) st' fs)"
proof (induction fs arbitrary: st st')
  case Nil
  then show ?case by simp
next
  case (Cons f fs)
  from Cons.prems have "durations (process_file decode_mp3 st f)
      = durations (process_file decode_mp3 st' f)"
    by (rule process_file_durations_cong)
  from Cons.IH [OF this] show ?case by simp
qed

lemma process_file_errors_mono:
  "set (errors st) \<subseteq> set (errors (process_file decode_mp3 st f))"
proof (cases rule: process_file_cases [of decode_mp3 f])
  case (failure e)
  then show ?thesis by (simp add: process_file_failure subset_insertI)
next
  case (not_found total_ms)
  then show ?thesis by (simp add: process_file_not_found subset_insertI)
next
  case (found t total_ms)
  then show ?thesis by (simp add: process_file_found)
qed

lemma foldl_process_file_errors_mono:
  "set (errors st) \<subseteq> set (errors (foldl (process_file decode_mp3) st fs))"
proof (induction fs arbitrary: st)
  case Nil
  then show ?case by simp
next
  case (Cons f fs)
  have "set (errors st) \<subseteq> set (errors (process_file decode_mp3 st f))"
    by (rule process_file_errors_mono)
  also have "\<dots> \<subseteq> set (errors (foldl (process_file decode_mp3)
      (process_file decode_mp3 st f) fs))"
    by (rule Cons.IH)
  finally show ?case by simp
qed

lemma foldl_process_voice:
  "foldl (process_voice decode_mp3) st voices
   = foldl (process_file decode_mp3) st (corpus_files voices)"
proof (induction voices arbitrary: st)
  case Nil
  then show ?case by (simp add: corpus_files_def)
next
  case (Cons v voices)
  show ?case
  proof (cases v)
    case None
    with Cons.IH [of st] show ?thesis by (simp add: corpus_files_def)
  next
    case (Some fs)
    with Cons.IH [of "foldl (process_file decode_mp3) st fs"] show ?thesis
      by (simp add: corpus_files_def)
  qed
qed

lemma main_loop_corpus_files:
  "main_loop decode_mp3 voices
   = foldl (process_file decode_mp3) \<lparr>durations = Map.empty, errors = []\<rparr> (corpus_files voices)"
  by (simp add: main_loop_def foldl_process_voice)

lemma analyse_not_found:
  assumes "decode_mp3 path = Inr (samples, sr)" and "0 < sr"
    and "rolling_energy_db samples sr FRAME_MS = Inr (energy_db, frame_length)"
    and "detect_speech_end energy_db sr frame_length THRESHOLD_DB MIN_FRAMES = Inr None"
  shows "analyse decode_mp3 path
         = Inr (None, fl64 (fl64 (real (length samples) / real sr) * 1000))"
  using assms by (simp add: analyse_def Let_def)

section \<open>The claims\<close>

text \<open>
  C6. For every energy profile in which no frame is strictly above the threshold,
  \<^verbatim>\<open>detect_speech_end\<close> returns \<^verbatim>\<open>None\<close> ("not found"), whatever the length of the profile,
  the sample rate, the frame length and \<^verbatim>\<open>min_frames\<close>.
\<close>

theorem detect_speech_end_all_below:
  assumes "\<forall>e\<in>set energy_db. e \<le> threshold_db"
  shows "detect_speech_end energy_db sample_rate frame_length threshold_db min_frames = Inr None"
proof -
  have "scan (above_threshold energy_db threshold_db) sample_rate frame_length min_frames
          (int (length energy_db) - 1)
        = scan (above_threshold energy_db threshold_db) sample_rate frame_length min_frames (- 1)"
    using scan_skip_segment [OF assms, of "[]" "[]" sample_rate frame_length min_frames]
    by simp
  then show ?thesis
    by (simp add: detect_speech_end_def Let_def scan_neg)
qed

theorem detect_speech_end_all_below_witness:
  "detect_speech_end [- 50, - 40, - 45, - 60, - 41] 16000 160 (- 40) 4 = Inr None"
  using detect_speech_end_all_below [of "[- 50, - 40, - 45, - 60, - 41]" "- 40" 16000 160 4]
  by simp

text \<open>
  C4. When the only frames above the threshold are a single run of exactly \<^verbatim>\<open>min_frames\<close>
  frames at the very end of the profile, \<^verbatim>\<open>detect_speech_end\<close> returns the end of that run:
  the sample index is the index of the run's last frame plus \<^verbatim>\<open>frame_length\<close>, divided by
  the sample rate and multiplied by 1000. A run of length equal to \<^verbatim>\<open>min_frames\<close> is
  accepted. The sample rate is positive (at 0 the division raises).
\<close>

theorem detect_speech_end_exact_run:
  assumes "\<forall>e\<in>set pre. e \<le> threshold_db" and "\<forall>e\<in>set run. threshold_db < e"
    and "run \<noteq> []" and "int (length run) = min_frames" and "0 < sample_rate"
  shows "detect_speech_end (pre @ run) sample_rate frame_length threshold_db min_frames
         = Inr (Some (real (length pre + length run - 1 + frame_length)
                      / real sample_rate * 1000))"
proof -
  have left: "pre = [] \<or> last pre \<le> threshold_db"
    using assms(1) by (cases "pre = []") auto
  have pos: "0 < length pre + length run" using assms(3) by simp
  have "scan (above_threshold (pre @ run) threshold_db) sample_rate frame_length min_frames
          (int (length pre + length run) - 1)
        = speech_end_ms (int (length pre + length run) - 1) frame_length sample_rate"
    using scan_run_segment [OF assms(2,3) left, of "[]" sample_rate frame_length min_frames]
      assms(4) by simp
  also have "\<dots> = Inr (Some (real (length pre + length run - 1 + frame_length)
                      / real sample_rate * 1000))"
    using assms(5) pos by (rule speech_end_ms_pos)
  finally have sc: "scan (above_threshold (pre @ run) threshold_db) sample_rate frame_length
      min_frames (int (length pre + length run) - 1)
    = Inr (Some (real (length pre + length run - 1 + frame_length) / real sample_rate * 1000))" .
  have "\<not> int (length (pre @ run)) < min_frames" using assms(4) by simp
  then have "detect_speech_end (pre @ run) sample_rate frame_length threshold_db min_frames
    = scan (above_threshold (pre @ run) threshold_db) sample_rate frame_length
      min_frames (int (length (pre @ run)) - 1)"
    by (simp only: detect_speech_end_def Let_def if_False)
  with sc show ?thesis by (simp only: length_append)
qed

theorem detect_speech_end_exact_run_witness:
  "detect_speech_end ([- 50, - 60] @ [- 10, - 20, - 30, - 39]) 16000 160 (- 40) 4
     = Inr (Some (165 / 16))"
  using detect_speech_end_exact_run
    [of "[- 50, - 60]" "- 40" "[- 10, - 20, - 30, - 39]" 4 16000 160]
  by simp

text \<open>
  C1. Let the profile be \<open>pre @ q_run @ gap @ s_run @ tail\<close>: \<open>s_run\<close> is the last maximal
  run of frames above the threshold (after it come only frames at or below it) and is
  shorter than \<^verbatim>\<open>min_frames\<close>; \<open>q_run\<close> is the maximal run before it, of at least
  \<^verbatim>\<open>min_frames\<close> frames. Then \<^verbatim>\<open>detect_speech_end\<close> returns the end of \<open>q_run\<close> (index of its
  last frame plus \<^verbatim>\<open>frame_length\<close>, over the sample rate, times 1000): not \<^verbatim>\<open>None\<close>, and not
  the timestamp of the end of \<open>s_run\<close>. The pass of the loop that rejects \<open>s_run\<close> goes on
  at the frame just before the start of \<open>s_run\<close>. The sample rate is positive.
\<close>

theorem detect_speech_end_skips_short_run:
  assumes left: "pre = [] \<or> last pre \<le> threshold_db"
    and q: "\<forall>e\<in>set q_run. threshold_db < e" "min_frames \<le> int (length q_run)"
    and gap: "gap \<noteq> []" "\<forall>e\<in>set gap. e \<le> threshold_db"
    and s: "s_run \<noteq> []" "\<forall>e\<in>set s_run. threshold_db < e" "int (length s_run) < min_frames"
    and tail: "\<forall>e\<in>set tail. e \<le> threshold_db"
    and sr: "0 < sample_rate"
  shows "detect_speech_end (pre @ q_run @ gap @ s_run @ tail) sample_rate frame_length
           threshold_db min_frames
         = Inr (Some (real (length pre + length q_run - 1 + frame_length)
                      / real sample_rate * 1000)) \<and>
         detect_speech_end (pre @ q_run @ gap @ s_run @ tail) sample_rate frame_length
           threshold_db min_frames
         \<noteq> Inr (Some (real (length pre + length q_run + length gap + length s_run - 1
                            + frame_length) / real sample_rate * 1000)) \<and>
         loop_body (above_threshold (pre @ q_run @ gap @ s_run @ tail) threshold_db)
           sample_rate frame_length min_frames
           (int (length pre + length q_run + length gap + length s_run) - 1)
         = Continue (int (length pre + length q_run + length gap) - 1)"
proof -
  let ?E = "pre @ q_run @ gap @ s_run @ tail"
  let ?abv = "above_threshold ?E threshold_db"
  let ?scan = "scan ?abv sample_rate frame_length min_frames"
  have qne: "q_run \<noteq> []" using q(2) s(1,3) by (cases q_run) auto
  have left_s: "pre @ q_run @ gap = [] \<or> last (pre @ q_run @ gap) \<le> threshold_db"
    using gap by simp
  have "?scan (int (length ?E) - 1)
        = ?scan (int (length pre + length q_run + length gap + length s_run) - 1)"
    using scan_skip_segment [OF tail, of "pre @ q_run @ gap @ s_run" "[]"
        sample_rate frame_length min_frames]
    by (simp add: add.assoc)
  also have "\<dots> = ?scan (int (length pre + length q_run + length gap) - 1)"
    using scan_run_segment [OF s(2) s(1) left_s, of tail sample_rate frame_length min_frames]
      s(3) by (simp add: add.assoc)
  also have "\<dots> = ?scan (int (length pre + length q_run) - 1)"
    using scan_skip_segment [OF gap(2), of "pre @ q_run" "s_run @ tail"
        sample_rate frame_length min_frames]
    by (simp add: add.assoc)
  also have "\<dots> = speech_end_ms (int (length pre + length q_run) - 1) frame_length sample_rate"
    using scan_run_segment [OF q(1) qne left, of "gap @ s_run @ tail"
        sample_rate frame_length min_frames] q(2)
    by simp
  also have "\<dots> = Inr (Some (real (length pre + length q_run - 1 + frame_length)
                      / real sample_rate * 1000))"
    using sr qne by (intro speech_end_ms_pos) auto
  finally have sc: "?scan (int (length ?E) - 1)
    = Inr (Some (real (length pre + length q_run - 1 + frame_length)
                 / real sample_rate * 1000))" .
  have "\<not> int (length ?E) < min_frames" using q(2) by simp
  then have "detect_speech_end ?E sample_rate frame_length threshold_db min_frames
    = ?scan (int (length ?E) - 1)"
    by (simp only: detect_speech_end_def Let_def if_False)
  with sc have res: "detect_speech_end ?E sample_rate frame_length threshold_db min_frames
    = Inr (Some (real (length pre + length q_run - 1 + frame_length)
                 / real sample_rate * 1000))" by simp
  have "length pre + length q_run - 1 + frame_length
        < length pre + length q_run + length gap + length s_run - 1 + frame_length"
  proof -
    have "0 < length q_run" "0 < length gap" using qne gap(1) by auto
    then show ?thesis by linarith
  qed
  then have "real (length pre + length q_run - 1 + frame_length) / real sample_rate * 1000
        < real (length pre + length q_run + length gap + length s_run - 1 + frame_length)
          / real sample_rate * 1000"
    using sr by (simp add: divide_strict_right_mono)
  then have "real (length pre + length q_run - 1 + frame_length) / real sample_rate * 1000
        \<noteq> real (length pre + length q_run + length gap + length s_run - 1 + frame_length)
          / real sample_rate * 1000"
    by (rule less_imp_neq)
  then have ne: "Inr (Some (real (length pre + length q_run - 1 + frame_length)
                 / real sample_rate * 1000))
     \<noteq> (Inr (Some (real (length pre + length q_run + length gap + length s_run - 1
                         + frame_length) / real sample_rate * 1000)) :: py_error + real option)"
    by blast
  have lb: "loop_body ?abv sample_rate frame_length min_frames
           (int (length pre + length q_run + length gap + length s_run) - 1)
         = Continue (int (length pre + length q_run + length gap) - 1)"
    using loop_body_run_segment [OF s(2) s(1) left_s, of tail sample_rate frame_length
        min_frames] s(3) by (simp add: add.assoc)
  from res ne lb show ?thesis by (simp only: simp_thms)
qed

theorem detect_speech_end_skips_short_run_witness:
  "detect_speech_end ([- 50] @ [- 10, - 10, - 10, - 10] @ [- 60] @ [- 5, - 5] @ [- 70])
     16000 160 (- 40) 4 = Inr (Some (41 / 4)) \<and>
   detect_speech_end ([- 50] @ [- 10, - 10, - 10, - 10] @ [- 60] @ [- 5, - 5] @ [- 70])
     16000 160 (- 40) 4 \<noteq> Inr (Some (167 / 16)) \<and>
   loop_body
     (above_threshold ([- 50] @ [- 10, - 10, - 10, - 10] @ [- 60] @ [- 5, - 5] @ [- 70]) (- 40))
     16000 160 4 7 = Continue 5"
  using detect_speech_end_skips_short_run
    [of "[- 50]" "- 40" "[- 10, - 10, - 10, - 10]" 4 "[- 60]" "[- 5, - 5]" "[- 70]" 16000 160]
  by simp

text \<open>
  C5. In \<^verbatim>\<open>detect_speech_end\<close> a frame counts as speech exactly when its energy is
  strictly greater than \<^verbatim>\<open>threshold_db\<close>; a frame whose energy equals the threshold does
  not. Seen from outside: a profile of that one frame, with \<^verbatim>\<open>min_frames = 1\<close>, is detected
  exactly when the frame is strictly above the threshold.
\<close>

theorem above_threshold_strict:
  assumes "i < length energy_db"
  shows "(above_threshold energy_db threshold_db ! i \<longleftrightarrow> threshold_db < energy_db ! i) \<and>
         (energy_db ! i = threshold_db \<longrightarrow> \<not> above_threshold energy_db threshold_db ! i) \<and>
         detect_speech_end [energy_db ! i] sample_rate frame_length threshold_db 1
         = (if threshold_db < energy_db ! i then speech_end_ms 0 frame_length sample_rate
            else Inr None)"
proof (intro conjI impI)
  show c: "above_threshold energy_db threshold_db ! i \<longleftrightarrow> threshold_db < energy_db ! i"
    using assms by (rule above_threshold_nth)
  show "\<not> above_threshold energy_db threshold_db ! i" if "energy_db ! i = threshold_db"
    using that c by simp
  let ?e = "energy_db ! i"
  show "detect_speech_end [?e] sample_rate frame_length threshold_db 1
         = (if threshold_db < ?e then speech_end_ms 0 frame_length sample_rate else Inr None)"
  proof (cases "threshold_db < ?e")
    case True
    then have "\<forall>x\<in>set [?e]. threshold_db < x" by simp
    from scan_run_segment [OF this, of "[]" "[]" sample_rate frame_length 1]
    have "scan (above_threshold [?e] threshold_db) sample_rate frame_length 1 0
          = speech_end_ms 0 frame_length sample_rate" by simp
    with True show ?thesis by (simp add: detect_speech_end_def Let_def)
  next
    case False
    then have "\<forall>x\<in>set [?e]. x \<le> threshold_db" by simp
    from scan_skip_segment [OF this, of "[]" "[]" sample_rate frame_length 1]
    have "scan (above_threshold [?e] threshold_db) sample_rate frame_length 1 0
          = Inr None" by (simp add: scan_neg)
    with False show ?thesis by (simp add: detect_speech_end_def Let_def)
  qed
qed

theorem above_threshold_strict_witness:
  "\<not> above_threshold [- 40, - 39] (- 40) ! 0 \<and>
   above_threshold [- 40, - 39] (- 40) ! 1 \<and>
   detect_speech_end [[- 40, - 39] ! 0] 16000 160 (- 40) 1 = Inr None \<and>
   detect_speech_end [[- 40, - 39] ! 1] 16000 160 (- 40) 1 = Inr (Some (10))"
  using above_threshold_strict [of 0 "[- 40, - 39]" "- 40" 16000 160]
    above_threshold_strict [of 1 "[- 40, - 39]" "- 40" 16000 160]
  by (simp add: speech_end_ms_def)

text \<open>
  C10. The reverse scan terminates on every profile. In a pass through the body of
  \<^verbatim>\<open>while i >= 0\<close> that does not return, the new index is strictly smaller and at least
  \<open>-1\<close>: it is \<open>i - 1\<close> when frame \<open>i\<close> is not above the threshold, and one before the start of
  the rejected run otherwise. Hence, started at \<open>i\<close>, the loop tests its condition at most
  \<open>i + 2\<close> times: with that bound on the passes it returns what \<open>scan\<close> returns.
\<close>

theorem scan_terminates:
  assumes "- 1 \<le> i"
  shows "(0 \<le> i \<longrightarrow> (\<forall>i'. loop_body abv sample_rate frame_length min_frames i = Continue i' \<longrightarrow>
            - 1 \<le> i' \<and> i' < i \<and>
            i' = (if abv ! nat i then find_run_start abv i - 1 else i - 1))) \<and>
         scan_fuel (nat (i + 2)) abv sample_rate frame_length min_frames i
         = Some (scan abv sample_rate frame_length min_frames i)"
proof (intro conjI impI allI)
  fix i'
  assume "0 \<le> i" and c: "loop_body abv sample_rate frame_length min_frames i = Continue i'"
  then show "- 1 \<le> i'" by (rule loop_body_Continue_ge)
  show "i' < i" using c by (rule loop_body_Continue_less)
  show "i' = (if abv ! nat i then find_run_start abv i - 1 else i - 1)"
    using c by (rule loop_body_Continue_eq)
next
  show "scan_fuel (nat (i + 2)) abv sample_rate frame_length min_frames i
        = Some (scan abv sample_rate frame_length min_frames i)"
    using assms by (intro scan_fuel_enough) auto
qed

theorem scan_terminates_witness:
  "loop_body [True, True, False, True] 16000 160 2 3 = Continue 2 \<and>
   - 1 \<le> (2::int) \<and> (2::int) < 3 \<and>
   scan_fuel (nat (3 + 2)) [True, True, False, True] 16000 160 2 3
     = Some (Inr (Some (161 / 16)))"
proof -
  have lb: "loop_body [True, True, False, True] 16000 160 2 3 = Continue 2"
    by (simp add: loop_body_def find_run_start.simps)
  have sc: "scan [True, True, False, True] 16000 160 2 3 = Inr (Some (161 / 16))"
    by (simp add: scan.simps loop_body_def find_run_start.simps speech_end_ms_def)
  from scan_terminates [of 3 "[True, True, False, True]" 16000 160 2] lb sc
  show ?thesis by simp
qed

text \<open>
  C2. The claim: the profile has \<open>length signal - frame_length + 1\<close> entries, and a signal
  shorter than \<^verbatim>\<open>frame_length\<close> gives an empty profile. That holds for a signal of at
  least \<^verbatim>\<open>frame_length\<close> samples (\<open>rolling_energy_db_length\<close>). For a shorter one
  \<^verbatim>\<open>np.convolve\<close> swaps its arguments and slides the signal along the window: at 16 kHz
  (\<^verbatim>\<open>frame_length\<close> 160) a silent signal of 159 samples gives a profile of 2 entries, where
  the claim says \<open>159 - 160 + 1 = 0\<close>; an empty signal raises \<^verbatim>\<open>ValueError\<close>.
\<close>

theorem rolling_energy_db_short_signal:
  "rolling_energy_db (replicate 159 0) 16000 FRAME_MS = Inr ([- 120, - 120], 160) \<and>
   rolling_energy_db [] 16000 FRAME_MS = Inl (ValueError ''v cannot be empty'')"
proof -
  have fl: "frame_length_of 16000 FRAME_MS = 160"
    by (simp add: FRAME_MS_def frame_length_of_16000)
  have "sum_list (map (\<lambda>x. x * x) (replicate 159 (0::real))) = 0"
    by (simp add: sum_list_replicate)
  then have "rolling_energy_db (replicate 159 0) 16000 FRAME_MS
        = Inr ([to_db 0, to_db 0], 160)"
    using rolling_energy_db_short [of "replicate 159 0" 16000 FRAME_MS]
    by (simp add: fl)
  then show ?thesis by (simp add: to_db_zero rolling_energy_db_empty)
qed

text \<open>
  C3. The claim: a signal shorter than one frame gives an empty profile and the detector
  returns \<^verbatim>\<open>None\<close>. At 16 kHz, with the parameters of the script, a signal of 100 samples
  of amplitude 1/2 (6.25 ms) gives a profile of 61 frames of about -8 dB, all above
  \<^verbatim>\<open>THRESHOLD_DB\<close>, and \<^verbatim>\<open>detect_speech_end\<close> returns 13.75 ms, more than the signal lasts.
\<close>

theorem short_signal_detected:
  "rolling_energy_db (replicate 100 (1 / 2)) 16000 FRAME_MS
     = Inr (replicate 61 (to_db (5 / 32)), 160) \<and>
   detect_speech_end (replicate 61 (to_db (5 / 32))) 16000 160 THRESHOLD_DB MIN_FRAMES
     = Inr (Some (55 / 4)) \<and>
   real (length (replicate 100 (1 / 2 :: real))) / real (16000::nat) * 1000 = 25 / 4"
proof -
  have fl: "frame_length_of 16000 FRAME_MS = 160"
    by (simp add: FRAME_MS_def frame_length_of_16000)
  have "sum_list (map (\<lambda>x. x * x) (replicate 100 (1 / 2 :: real))) = 25"
    by (simp add: sum_list_replicate)
  then have r: "rolling_energy_db (replicate 100 (1 / 2)) 16000 FRAME_MS
        = Inr (replicate 61 (to_db (5 / 32)), 160)"
    using rolling_energy_db_short [of "replicate 100 (1 / 2)" 16000 FRAME_MS]
    by (simp add: fl)
  have above: "THRESHOLD_DB < to_db (5 / 32)"
    unfolding THRESHOLD_DB_def
  proof (rule to_db_above)
    show "1 / 10 ^ 12 \<le> (5 / 32 :: real)" by simp
    have "(10::real) powr (- 40 / 10) = 1 / 10 ^ 4"
      by (simp add: powr_minus_divide)
    then show "(10::real) powr (- 40 / 10) < 5 / 32" by simp
  qed
  have d: "detect_speech_end (replicate 61 (to_db (5 / 32))) 16000 160 THRESHOLD_DB MIN_FRAMES
     = Inr (Some (55 / 4))"
    using detect_speech_end_constant_profile [OF above, of 61 MIN_FRAMES 16000 160]
    by (simp add: MIN_FRAMES_def)
  from r d show ?thesis by simp
qed

text \<open>
  C9. When \<^verbatim>\<open>rolling_energy_db\<close> is given a signal of at least \<^verbatim>\<open>frame_length\<close> samples and
  \<^verbatim>\<open>detect_speech_end\<close> returns a timestamp for its profile, the timestamp is not negative
  and not more than the duration of the signal, \<open>length signal / sample_rate * 1000\<close>.
\<close>

theorem speech_end_within_signal:
  assumes "rolling_energy_db signal sample_rate frame_ms = Inr (energy_db, frame_length)"
    and "frame_length \<le> length signal"
    and "detect_speech_end energy_db sample_rate frame_length threshold_db min_frames
         = Inr (Some ms)"
  shows "0 \<le> ms \<and> ms \<le> real (length signal) / real sample_rate * 1000"
proof -
  have len: "length energy_db = length signal - frame_length + 1"
    using rolling_energy_db_length(3) [OF assms(1)] assms(2) by simp
  from assms(3) have sc: "scan (above_threshold energy_db threshold_db) sample_rate frame_length
      min_frames (int (length energy_db) - 1) = Inr (Some ms)"
    by (simp add: detect_speech_end_def Let_def split: if_splits)
  from scan_Some [OF sc] obtain b where b: "0 \<le> b" "b \<le> int (length energy_db) - 1"
    "sample_rate \<noteq> 0" "ms = real_of_int (b + int frame_length) / real sample_rate * 1000"
    by blast
  have sr: "0 < real sample_rate" using b(3) by simp
  have "b + int frame_length \<le> int (length signal)" using b(2) len assms(2) by simp
  then have up: "real_of_int (b + int frame_length) \<le> real (length signal)"
    by (metis of_int_le_iff of_int_of_nat_eq)
  have lo: "0 \<le> real_of_int (b + int frame_length)" using b(1) by simp
  have "0 \<le> ms" unfolding b(4) using lo sr by simp
  moreover have "ms \<le> real (length signal) / real sample_rate * 1000"
    unfolding b(4) using up sr by (simp add: divide_right_mono)
  ultimately show ?thesis by simp
qed

theorem speech_end_within_signal_witness:
  "rolling_energy_db (replicate 163 1) 16000 10 = Inr (replicate 4 0, 160) \<and>
   detect_speech_end (replicate 4 0) 16000 160 (- 40) 4 = Inr (Some (163 / 16)) \<and>
   (0::real) \<le> 163 / 16 \<and>
   (163 / 16 :: real) \<le> real (length (replicate 163 (1::real))) / real (16000::nat) * 1000"
proof -
  have r: "rolling_energy_db (replicate 163 1) 16000 10 = Inr (replicate 4 0, 160)"
    using rolling_energy_db_constant [of 16000 10 163 1]
    by (simp add: frame_length_of_16000 to_db_one)
  have d: "detect_speech_end (replicate 4 0) 16000 160 (- 40) 4 = Inr (Some (163 / 16))"
    using detect_speech_end_constant_profile [of "- 40" 0 4 4 16000 160] by simp
  have "(160::nat) \<le> length (replicate 163 (1::real))" by simp
  from speech_end_within_signal [OF r this d] r d show ?thesis by simp
qed

text \<open>
  C7. When the detector is reached for a stimulus (the file decodes, with a positive
  sample rate, and is framed) and returns \<^verbatim>\<open>None\<close>, the pass of the loop does both things.
  It stores under the key of the stimulus in \<^verbatim>\<open>durations\<close> the full duration of the signal,
  \<^verbatim>\<open>len(samples) / sr * 1000.0\<close> as binary64 computes it, rounded by \<^verbatim>\<open>round(x, 1)\<close>: the stored
  value is the double nearest to a decimal \<open>k / 10\<close> that is within 0.05 of that duration.
  And it appends the one entry \<^verbatim>\<open>'<key>: no speech detected'\<close> to \<^verbatim>\<open>errors\<close>.
\<close>

theorem no_speech_fallback:
  assumes "decode_mp3 (mp3_path f) = Inr (samples, sr)" and "0 < sr"
    and "rolling_energy_db samples sr FRAME_MS = Inr (energy_db, frame_length)"
    and "detect_speech_end energy_db sr frame_length THRESHOLD_DB MIN_FRAMES = Inr None"
  shows "durations (process_file decode_mp3 st f)
         = (durations st)
             (key f \<mapsto> round1 (fl64 (fl64 (real (length samples) / real sr) * 1000))) \<and>
         (\<exists>k. durations (process_file decode_mp3 st f) (key f)
                = Some (fl64 (real_of_int k / 10)) \<and>
              \<bar>real_of_int k / 10 - fl64 (fl64 (real (length samples) / real sr) * 1000)\<bar>
                \<le> 1 / 20) \<and>
         errors (process_file decode_mp3 st f)
         = errors st @ [key f @ '': no speech detected'']"
proof -
  let ?total_ms = "fl64 (fl64 (real (length samples) / real sr) * 1000)"
  have "analyse decode_mp3 (mp3_path f) = Inr (None, ?total_ms)"
    using assms by (rule analyse_not_found)
  then have pass: "process_file decode_mp3 st f
      = st\<lparr>errors := errors st @ [key f @ '': no speech detected''],
           durations := (durations st)(key f \<mapsto> round1 ?total_ms)\<rparr>"
    by (rule process_file_not_found)
  obtain k where k: "round1 ?total_ms = fl64 (real_of_int k / 10)"
      "\<bar>real_of_int k / 10 - ?total_ms\<bar> \<le> 1 / 20"
    using round1_nearest_decimal [of ?total_ms] by blast
  have "durations (process_file decode_mp3 st f) (key f) = Some (fl64 (real_of_int k / 10))"
    by (simp add: pass k(1))
  with k(2) have "\<exists>k. durations (process_file decode_mp3 st f) (key f)
                = Some (fl64 (real_of_int k / 10)) \<and>
              \<bar>real_of_int k / 10 - ?total_ms\<bar> \<le> 1 / 20"
    by blast
  then show ?thesis by (simp add: pass)
qed

text \<open>
  Two silent signals at 16 kHz. 8000 samples last 500 ms, and 500 is stored. 4012 samples
  last 250.75 ms, a tie between 250.7 and 250.8 for the exact value: the source stores
  250.7, the double \<open>4410361041335091 / 17592186044416\<close>, since the duration it computes
  is the double just below 250.75.
\<close>

theorem no_speech_fallback_witness:
  "durations (process_file (\<lambda>p. Inr (replicate 4012 0, 16000))
       \<lparr>durations = Map.empty, errors = []\<rparr>
       \<lparr>key = ''male_casa'', mp3_path = ''male/casa.mp3''\<rparr>)
     = [''male_casa'' \<mapsto> 4410361041335091 / 17592186044416] \<and>
   errors (process_file (\<lambda>p. Inr (replicate 4012 0, 16000))
       \<lparr>durations = Map.empty, errors = []\<rparr>
       \<lparr>key = ''male_casa'', mp3_path = ''male/casa.mp3''\<rparr>)
     = [''male_casa: no speech detected''] \<and>
   durations (process_file (\<lambda>p. Inr (replicate 8000 0, 16000))
       \<lparr>durations = Map.empty, errors = []\<rparr>
       \<lparr>key = ''male_casa'', mp3_path = ''male/casa.mp3''\<rparr>)
     = [''male_casa'' \<mapsto> 500] \<and>
   errors (process_file (\<lambda>p. Inr (replicate 8000 0, 16000))
       \<lparr>durations = Map.empty, errors = []\<rparr>
       \<lparr>key = ''male_casa'', mp3_path = ''male/casa.mp3''\<rparr>)
     = [''male_casa: no speech detected'']"
proof -
  let ?f = "\<lparr>key = ''male_casa'', mp3_path = ''male/casa.mp3''\<rparr>"
  let ?init = "\<lparr>durations = Map.empty, errors = []\<rparr>"
  have sr: "(0::nat) < 16000" by simp
  have r1: "rolling_energy_db (replicate 4012 0) 16000 FRAME_MS
           = Inr (replicate 3853 (- 120), 160)"
    using rolling_energy_db_constant [of 16000 10 4012 0]
    by (simp add: FRAME_MS_def frame_length_of_16000 to_db_zero)
  have d1: "detect_speech_end (replicate 3853 (- 120)) 16000 160 THRESHOLD_DB MIN_FRAMES
           = Inr None"
    by (rule detect_speech_end_replicate_below) (simp add: THRESHOLD_DB_def)
  have dec1: "(\<lambda>p. Inr (replicate 4012 0, 16000)) (mp3_path ?f)
             = (Inr (replicate 4012 (0::real), 16000::nat) :: py_error + (real list \<times> nat))"
    by simp
  have r2: "rolling_energy_db (replicate 8000 0) 16000 FRAME_MS
           = Inr (replicate 7841 (- 120), 160)"
    using rolling_energy_db_constant [of 16000 10 8000 0]
    by (simp add: FRAME_MS_def frame_length_of_16000 to_db_zero)
  have d2: "detect_speech_end (replicate 7841 (- 120)) 16000 160 THRESHOLD_DB MIN_FRAMES
           = Inr None"
    by (rule detect_speech_end_replicate_below) (simp add: THRESHOLD_DB_def)
  have dec2: "(\<lambda>p. Inr (replicate 8000 0, 16000)) (mp3_path ?f)
             = (Inr (replicate 8000 (0::real), 16000::nat) :: py_error + (real list \<times> nat))"
    by simp
  note short = no_speech_fallback
    [of "\<lambda>p. Inr (replicate 4012 0, 16000)" ?f "replicate 4012 0" 16000
       "replicate 3853 (- 120)" 160 ?init, OF dec1 sr r1 d1, unfolded stored_duration_4012]
  note long = no_speech_fallback
    [of "\<lambda>p. Inr (replicate 8000 0, 16000)" ?f "replicate 8000 0" 16000
       "replicate 7841 (- 120)" 160 ?init, OF dec2 sr r2 d2, unfolded stored_duration_8000]
  from short have "durations (process_file (\<lambda>p. Inr (replicate 4012 0, 16000)) ?init ?f)
        = [''male_casa'' \<mapsto> 4410361041335091 / 17592186044416]"
      and "errors (process_file (\<lambda>p. Inr (replicate 4012 0, 16000)) ?init ?f)
        = [''male_casa: no speech detected'']"
    by simp_all
  moreover from long have "durations (process_file (\<lambda>p. Inr (replicate 8000 0, 16000)) ?init ?f)
        = [''male_casa'' \<mapsto> 500]"
      and "errors (process_file (\<lambda>p. Inr (replicate 8000 0, 16000)) ?init ?f)
        = [''male_casa: no speech detected'']"
    by simp_all
  ultimately show ?thesis by blast
qed

text \<open>
  C8. When decoding or framing a file raises (\<open>analyse\<close> gives the exception \<open>e\<close>), the pass
  of the loop only appends \<^verbatim>\<open>'<key>: <e>'\<close> to \<^verbatim>\<open>errors\<close>. The run goes on through all the
  files after it, \<^verbatim>\<open>durations\<close> ends as in the run over the corpus without that file, and
  the entry with the key of the file is in the final \<^verbatim>\<open>errors\<close>.
\<close>

theorem failure_isolated:
  assumes "analyse decode_mp3 (mp3_path f) = Inl e"
    and "corpus_files voices = pre @ f # post"
  shows "process_file decode_mp3 st f = st\<lparr>errors := errors st @ [key f @ '': '' @ str_of e]\<rparr> \<and>
         main_loop decode_mp3 voices
         = foldl (process_file decode_mp3)
             ((foldl (process_file decode_mp3) \<lparr>durations = Map.empty, errors = []\<rparr> pre)
                \<lparr>errors := errors (foldl (process_file decode_mp3)
                                    \<lparr>durations = Map.empty, errors = []\<rparr> pre)
                            @ [key f @ '': '' @ str_of e]\<rparr>)
             post \<and>
         durations (main_loop decode_mp3 voices)
         = durations (foldl (process_file decode_mp3) \<lparr>durations = Map.empty, errors = []\<rparr>
                        (pre @ post)) \<and>
         key f @ '': '' @ str_of e \<in> set (errors (main_loop decode_mp3 voices))"
proof -
  let ?init = "\<lparr>durations = Map.empty, errors = []\<rparr>"
  let ?pf = "process_file decode_mp3"
  let ?st_pre = "foldl ?pf ?init pre"
  let ?entry = "key f @ '': '' @ str_of e"
  have one: "\<And>s. ?pf s f = s\<lparr>errors := errors s @ [?entry]\<rparr>"
    using assms(1) by (rule process_file_failure)
  have run: "main_loop decode_mp3 voices
             = foldl ?pf (?st_pre\<lparr>errors := errors ?st_pre @ [?entry]\<rparr>) post"
    by (simp add: main_loop_corpus_files assms(2) one)
  have "durations (?st_pre\<lparr>errors := errors ?st_pre @ [?entry]\<rparr>) = durations ?st_pre"
    by simp
  then have "durations (foldl ?pf (?st_pre\<lparr>errors := errors ?st_pre @ [?entry]\<rparr>) post)
             = durations (foldl ?pf ?st_pre post)"
    by (rule foldl_process_file_durations_cong)
  then have dur: "durations (main_loop decode_mp3 voices)
                  = durations (foldl ?pf ?init (pre @ post))"
    by (simp add: run)
  have "?entry \<in> set (errors (?st_pre\<lparr>errors := errors ?st_pre @ [?entry]\<rparr>))" by simp
  then have mem: "?entry \<in> set (errors (main_loop decode_mp3 voices))"
    unfolding run using foldl_process_file_errors_mono by blast
  from one [of st] run dur mem show ?thesis by blast
qed

theorem failure_isolated_witness:
  "main_loop
     (\<lambda>p. if p = ''female/b.mp3'' then Inl (RuntimeError ''ffmpeg failed for female/b.mp3'')
          else Inr (replicate 8000 0, 16000))
     [Some [\<lparr>key = ''male_a'', mp3_path = ''male/a.mp3''\<rparr>],
      Some [\<lparr>key = ''female_b'', mp3_path = ''female/b.mp3''\<rparr>,
            \<lparr>key = ''female_c'', mp3_path = ''female/c.mp3''\<rparr>]]
   = \<lparr>durations = [''male_a'' \<mapsto> 500, ''female_c'' \<mapsto> 500],
      errors = [''male_a: no speech detected'',
                ''female_b: ffmpeg failed for female/b.mp3'',
                ''female_c: no speech detected'']\<rparr>"
proof -
  let ?d = "\<lambda>p. if p = ''female/b.mp3''
                 then Inl (RuntimeError ''ffmpeg failed for female/b.mp3'')
                 else (Inr (replicate 8000 (0::real), 16000::nat)
                       :: py_error + (real list \<times> nat))"
  let ?a = "\<lparr>key = ''male_a'', mp3_path = ''male/a.mp3''\<rparr>"
  let ?b = "\<lparr>key = ''female_b'', mp3_path = ''female/b.mp3''\<rparr>"
  let ?c = "\<lparr>key = ''female_c'', mp3_path = ''female/c.mp3''\<rparr>"
  let ?init = "\<lparr>durations = Map.empty, errors = []\<rparr>"
  have r: "rolling_energy_db (replicate 8000 0) 16000 FRAME_MS
           = Inr (replicate 7841 (- 120), 160)"
    using rolling_energy_db_constant [of 16000 10 8000 0]
    by (simp add: FRAME_MS_def frame_length_of_16000 to_db_zero)
  have d: "detect_speech_end (replicate 7841 (- 120)) 16000 160 THRESHOLD_DB MIN_FRAMES
           = Inr None"
    by (rule detect_speech_end_replicate_below) (simp add: THRESHOLD_DB_def)
  have silent: "analyse ?d p = Inr (None, 500)" if "p \<noteq> ''female/b.mp3''" for p
    using that by (simp add: analyse_def r d fl64_half fl64_500)
  have a: "process_file ?d st ?a
           = st\<lparr>errors := errors st @ [''male_a: no speech detected''],
                 durations := (durations st)(''male_a'' \<mapsto> 500)\<rparr>" for st
    using process_file_not_found [of ?d ?a 500 st] silent [of "''male/a.mp3''"]
    by (simp add: round1_500)
  have c: "process_file ?d st ?c
           = st\<lparr>errors := errors st @ [''female_c: no speech detected''],
                 durations := (durations st)(''female_c'' \<mapsto> 500)\<rparr>" for st
    using process_file_not_found [of ?d ?c 500 st] silent [of "''female/c.mp3''"]
    by (simp add: round1_500)
  have fails: "analyse ?d (mp3_path ?b)
               = Inl (RuntimeError ''ffmpeg failed for female/b.mp3'')"
    by (simp add: analyse_def)
  have files: "corpus_files [Some [?a], Some [?b, ?c]] = [?a] @ ?b # [?c]"
    by (simp add: corpus_files_def)
  from failure_isolated [of ?d ?b "RuntimeError ''ffmpeg failed for female/b.mp3''"
      "[Some [?a], Some [?b, ?c]]" "[?a]" "[?c]" ?init, OF fails files]
  have "main_loop ?d [Some [?a], Some [?b, ?c]]
        = foldl (process_file ?d)
            ((foldl (process_file ?d) ?init [?a])
               \<lparr>errors := errors (foldl (process_file ?d) ?init [?a])
                           @ [key ?b @ '': ''
                              @ str_of (RuntimeError ''ffmpeg failed for female/b.mp3'')]\<rparr>)
            [?c]"
    by blast
  then show ?thesis by (simp add: a c)
qed

end
